theory Spec2Isabelle
  imports Main "HOL-Library.Signed_Division"
begin

section \<open>Outcomes\<close>

text \<open>
  Every failure of \<^verbatim>\<open>calc.cpp\<close> is a \<^verbatim>\<open>std::logic_error\<close> told apart by its message
  only. The constructors below are named after the error taxonomy of the specification:
  \<^item> \<open>BadSymbol n\<close>: "Bad symbol on position n" (line 292);
  \<^item> \<open>UnbalancedBrackets\<close>: "Invalid bracket sequence in expression" (lines 273, 300);
  \<^item> \<open>DivisionByZero\<close>: "Division by zero" (line 191);
  \<^item> \<open>Overflow\<close>: "Roman number overflow" (line 90);
  \<^item> \<open>MalformedExpression\<close>: "Invalid expression format" (lines 315, 323, 340).

  \<open>UndefinedBehaviour\<close> is no exception of the program: it marks the executions for which
  C++ defines no result (signed overflow, \<^verbatim>\<open>abs\<close> of the least integer, a machine division
  by zero). Integers are modelled as \<^typ>\<open>int\<close>; wherever an \<^verbatim>\<open>int64_t\<close> or \<^verbatim>\<open>int\<close>
  operation of the source can leave its range, the model tests the range and returns
  \<open>UndefinedBehaviour\<close>. The conversion from \<^verbatim>\<open>int64_t\<close> to \<^verbatim>\<open>int\<close> is modular.

  The elements are values here, not pointers: the \<^verbatim>\<open>new\<close> and \<^verbatim>\<open>delete\<close> of the source
  have no counterpart in the model.
\<close>

datatype error =
    BadSymbol nat
  | UnbalancedBrackets
  | DivisionByZero
  | Overflow
  | MalformedExpression
  | UndefinedBehaviour

definition INT64_MIN :: int where
  "INT64_MIN = - (2 ^ 63)"

definition INT64_MAX :: int where
  "INT64_MAX = 2 ^ 63 - 1"

definition INT_MIN :: int where
  "INT_MIN = - (2 ^ 31)"

definition INT_MAX :: int where
  "INT_MAX = 2 ^ 31 - 1"

section \<open>RomanConverter\<close>

definition BOUND :: int where
  "BOUND = 3999"

text \<open>
  The two \<^verbatim>\<open>unordered_map\<close>s are association lists. They are only ever read with
  \<^verbatim>\<open>operator[]\<close>, which inserts and returns a zero for a key that is absent, so that
  a later read of the same key returns zero again: \<open>at\<close> is that read.
\<close>

definition at :: "('k \<times> int) list \<Rightarrow> 'k \<Rightarrow> int" where
  "at m k = (case map_of m k of None \<Rightarrow> 0 | Some v \<Rightarrow> v)"

definition rule_add :: "(char \<times> int) list" where
  "rule_add =
     [(CHR ''I'', 1), (CHR ''V'', 5), (CHR ''X'', 10), (CHR ''L'', 50),
      (CHR ''C'', 100), (CHR ''D'', 500), (CHR ''M'', 1000)]"

definition rule_div :: "((char \<times> char) \<times> int) list" where
  "rule_div =
     [((CHR ''I'', CHR ''V''), 3), ((CHR ''I'', CHR ''X''), 8),
      ((CHR ''X'', CHR ''L''), 30), ((CHR ''X'', CHR ''C''), 80),
      ((CHR ''C'', CHR ''D''), 300), ((CHR ''C'', CHR ''M''), 800)]"

definition weight :: "(int \<times> string) list" where
  "weight =
     [(1000, ''M''), (900, ''CM''), (500, ''D''), (400, ''CD''), (100, ''C''),
      (90, ''XC''), (50, ''L''), (40, ''XL''), (10, ''X''), (9, ''IX''),
      (5, ''V''), (4, ''IV''), (1, ''I''), (0, ''Z'')]"

text \<open>
  The body of the \<^verbatim>\<open>for\<close> loop of \<^verbatim>\<open>to_int64\<close> (lines 73 to 80): \<open>prev_literal\<close>
  starts as the character 0, which the test of line 74 reads as "no previous letter".
  The sum stays below 1000 times the length of the text, far inside \<^verbatim>\<open>int64_t\<close>.
\<close>

fun to_int64_loop :: "char \<Rightarrow> int \<Rightarrow> string \<Rightarrow> int" where
  "to_int64_loop prev_literal result [] = result"
| "to_int64_loop prev_literal result (literal # rest) =
     (if prev_literal \<noteq> CHR 0x00 \<and> at rule_add prev_literal < at rule_add literal
      then to_int64_loop literal (result + at rule_div (prev_literal, literal)) rest
      else to_int64_loop literal (result + at rule_add literal) rest)"

definition to_int64 :: "string \<Rightarrow> int" where
  "to_int64 str =
     (if length str = 1 \<and> str ! 0 = CHR ''Z'' then 0
      else to_int64_loop (CHR 0x00) 0 str)"

text \<open>
  The inner \<^verbatim>\<open>for\<close> loop of \<^verbatim>\<open>to_roman\<close> (lines 100 to 106) stops at the first entry
  of the table whose weight is at most the value.
\<close>

fun first_fit :: "int \<Rightarrow> (int \<times> string) list \<Rightarrow> (int \<times> string) option" where
  "first_fit v [] = None"
| "first_fit v (w # ws) = (if v \<ge> fst w then Some w else first_fit v ws)"

lemma first_fit_weight:
  "0 < v \<Longrightarrow> \<exists>w. first_fit v weight = Some w \<and> 0 < fst w \<and> fst w \<le> v"
  by (simp add: weight_def)

text \<open>
  The \<^verbatim>\<open>while\<close> loop of lines 99 to 107. Were the table scanned without a hit, the C++
  loop would go round with the same value; the termination proof shows that this branch
  is never taken.
\<close>

function to_roman_loop :: "int \<Rightarrow> string \<Rightarrow> string" where
  "to_roman_loop v result =
     (if v > 0 then
        (case first_fit v weight of
           Some w \<Rightarrow> to_roman_loop (v - fst w) (result @ snd w)
         | None \<Rightarrow> to_roman_loop v result)
      else result)"
  by pat_completeness auto
termination
proof (relation "measure (\<lambda>(v, result). nat v)")
  show "wf (measure (\<lambda>(v, result). nat v))" by simp
next
  fix v :: int and result :: string
  assume "0 < v" "first_fit v weight = None"
  then show "((v, result), (v, result)) \<in> measure (\<lambda>(v, result). nat v)"
    using first_fit_weight [of v] by simp
next
  fix v :: int and result :: string and w :: "int \<times> string"
  assume "0 < v" "first_fit v weight = Some w"
  then show "((v - fst w, result @ snd w), (v, result)) \<in> measure (\<lambda>(v, result). nat v)"
    using first_fit_weight [of v] by auto
qed

declare to_roman_loop.simps [simp del]

text \<open>
  \<^verbatim>\<open>to_roman\<close> (lines 85 to 109). \<^verbatim>\<open>std::abs\<close> of the least \<^verbatim>\<open>int64_t\<close> is not
  representable, and C++ leaves the call of line 89 undefined there.
\<close>

definition to_roman :: "int \<Rightarrow> error + string" where
  "to_roman v =
     (if v = 0 then Inr ''Z''
      else if v = INT64_MIN then Inl UndefinedBehaviour
      else if \<bar>v\<bar> > BOUND then Inl Overflow
      else if v < 0 then Inr (to_roman_loop \<bar>v\<bar> ''-'')
      else Inr (to_roman_loop v []))"

section \<open>Element\<close>

datatype ElementType = BRACKET | BINARY_OPERATION | VALUE

text \<open>
  The fields \<^verbatim>\<open>value_\<close>, \<^verbatim>\<open>label_\<close> and \<^verbatim>\<open>priority_\<close>, under the names of their
  accessors. An operator or a bracket keeps its character code in \<open>val\<close>.
\<close>

record Element =
  val :: int
  label :: ElementType
  priority :: int

text \<open>The constructor \<^verbatim>\<open>Element(int64_t value)\<close> of line 136.\<close>

definition Element_value :: "int \<Rightarrow> Element" where
  "Element_value v = \<lparr>val = v, label = VALUE, priority = 3\<rparr>"

text \<open>
  The constructor \<^verbatim>\<open>Element(int value, ElementType type)\<close> of lines 138 to 158. Its
  \<^verbatim>\<open>default\<close> branch leaves \<^verbatim>\<open>priority_\<close> uninitialised; the parser calls it with an
  open bracket or one of the four operators only, so the last branch below (which puts 0
  there) is never reached from the program.
\<close>

definition Element_symbol :: "char \<Rightarrow> ElementType \<Rightarrow> Element" where
  "Element_symbol c t =
     \<lparr>val = of_char c, label = t,
      priority =
        (if c = CHR ''+'' \<or> c = CHR ''-'' then 0
         else if c = CHR ''*'' \<or> c = CHR ''/'' then 1
         else if c = CHR ''('' \<or> c = CHR '')'' then - 1
         else 0)\<rparr>"

text \<open>
  The conversion of an \<^verbatim>\<open>int64_t\<close> argument to the \<^verbatim>\<open>int\<close> parameter of
  \<^verbatim>\<open>divide\<close>: the value modulo \<open>2 ^ 32\<close>, read as two's complement.
\<close>

definition int32 :: "int \<Rightarrow> int" where
  "int32 x = (x + 2 ^ 31) mod 2 ^ 32 - 2 ^ 31"

text \<open>
  \<^verbatim>\<open>divide\<close> (lines 168 to 174) on two \<^verbatim>\<open>int\<close>s. \<open>sdiv\<close> is the quotient of C++, which
  truncates. In the second branch the negation applies to the bracket, before the
  division. The executions without a defined result are: the least \<^verbatim>\<open>int\<close> divided by
  \<open>- 1\<close>, \<^verbatim>\<open>abs\<close> of the least \<^verbatim>\<open>int\<close>, a sum of the two absolute values beyond the
  greatest \<^verbatim>\<open>int\<close>, and a zero divisor.
\<close>

definition divide' :: "int \<Rightarrow> int \<Rightarrow> error + int" where
  "divide' left right =
     (if (left \<le> 0 \<and> right < 0) \<or> (left \<ge> 0 \<and> right > 0) then
        (if left = INT_MIN \<and> right = - 1 then Inl UndefinedBehaviour
         else Inr (left sdiv right))
      else if left = INT_MIN \<or> right = INT_MIN \<or> \<bar>left\<bar> + \<bar>right\<bar> > INT_MAX \<or> right = 0
        then Inl UndefinedBehaviour
      else Inr ((- (\<bar>left\<bar> + \<bar>right\<bar> - 1)) sdiv \<bar>right\<bar>))"

text \<open>An \<^verbatim>\<open>int64_t\<close> result of \<open>+\<close>, \<open>-\<close> or \<open>*\<close>: undefined outside the range.\<close>

definition checked64 :: "int \<Rightarrow> error + int" where
  "checked64 x = (if INT64_MIN \<le> x \<and> x \<le> INT64_MAX then Inr x else Inl UndefinedBehaviour)"

definition new_Element :: "error + int \<Rightarrow> error + Element" where
  "new_Element r = (case r of Inl e \<Rightarrow> Inl e | Inr v \<Rightarrow> Inr (Element_value v))"

text \<open>\<^verbatim>\<open>proceed\<close> (lines 176 to 200), called on the operator element.\<close>

definition proceed :: "Element \<Rightarrow> Element \<Rightarrow> Element \<Rightarrow> error + Element" where
  "proceed this left right =
     (if val this = of_char (CHR ''+'') then new_Element (checked64 (val left + val right))
      else if val this = of_char (CHR ''-'') then new_Element (checked64 (val left - val right))
      else if val this = of_char (CHR ''*'') then new_Element (checked64 (val left * val right))
      else if val this = of_char (CHR ''/'') then
        (if val right = 0 then Inl DivisionByZero
         else new_Element (divide' (int32 (val left)) (int32 (val right))))
      else new_Element (Inr 0))"

section \<open>ExpressionSolver\<close>

definition available_symbols :: "char list" where
  "available_symbols =
     [CHR ''I'', CHR ''V'', CHR ''X'', CHR ''L'', CHR ''C'', CHR ''D'', CHR ''M'', CHR ''Z'']"

definition is_roman :: "char \<Rightarrow> bool" where
  "is_roman c = (c \<in> set available_symbols)"

definition is_operation :: "char \<Rightarrow> bool" where
  "is_operation c = (c = CHR ''+'' \<or> c = CHR ''-'' \<or> c = CHR ''*'' \<or> c = CHR ''/'')"

text \<open>
  \<^verbatim>\<open>data_[i]\<close>: a \<^verbatim>\<open>std::string\<close> read at its size gives the character 0. The program
  never reads further.
\<close>

definition char_at :: "string \<Rightarrow> nat \<Rightarrow> char" where
  "char_at data i = (if i < length data then data ! i else CHR 0x00)"

text \<open>\<^verbatim>\<open>is_unary\<close> (lines 240 to 246); \<^verbatim>\<open>&&\<close> binds tighter than \<^verbatim>\<open>||\<close>.\<close>

definition is_unary :: "string \<Rightarrow> nat \<Rightarrow> bool" where
  "is_unary data current =
     (((current + 1 < length data \<and> char_at data (current + 1) = CHR ''('')
        \<or> is_roman (char_at data (current + 1)))
      \<and> char_at data current = CHR ''-''
      \<and> (current = 0
          \<or> (current > 0
              \<and> (is_operation (char_at data (current - 1))
                  \<or> char_at data (current - 1) = CHR '')''))))"

text \<open>
  \<^verbatim>\<open>read_number\<close> (lines 248 to 255): the longest run of numeral letters from the
  position on, decoded, and the position after the run.
\<close>

definition read_number :: "string \<Rightarrow> nat \<Rightarrow> int \<times> nat" where
  "read_number data pos =
     (let result = takeWhile is_roman (drop pos data)
      in (to_int64 result, pos + length result))"

text \<open>
  The state of the constructor's loop: the cursor, the local \<^verbatim>\<open>unarity\<close> and the two
  vectors. \<open>stack\<close> is kept with its back (the top) at the head of the list; \<open>out\<close> is
  in the order of the vector.
\<close>

record solver =
  position :: nat
  unarity :: int
  stack :: "Element list"
  out :: "Element list"

text \<open>The loop of lines 268 to 271.\<close>

fun pop_to_bracket :: "Element list \<Rightarrow> Element list \<Rightarrow> Element list \<times> Element list" where
  "pop_to_bracket [] outs = ([], outs)"
| "pop_to_bracket (e # stk) outs =
     (if label e \<noteq> BRACKET then pop_to_bracket stk (outs @ [e]) else (e # stk, outs))"

text \<open>The loop of lines 286 to 289.\<close>

fun pop_priority :: "Element \<Rightarrow> Element list \<Rightarrow> Element list \<Rightarrow> Element list \<times> Element list" where
  "pop_priority current [] outs = ([], outs)"
| "pop_priority current (e # stk) outs =
     (if priority e \<ge> priority current then pop_priority current stk (outs @ [e])
      else (e # stk, outs))"

text \<open>The loop of lines 298 to 304, which ends the constructor.\<close>

fun flush :: "Element list \<Rightarrow> Element list \<Rightarrow> error + Element list" where
  "flush [] outs = Inr outs"
| "flush (e # stk) outs =
     (if label e \<noteq> BINARY_OPERATION then Inl UnbalancedBrackets else flush stk (outs @ [e]))"

text \<open>
  One round of the \<^verbatim>\<open>while\<close> loop of lines 260 to 296, entered with the position
  inside the text. After a numeral the position is stepped back and forth (lines 264 and
  295), which leaves it behind the run. The decoded value is at least 0 and is multiplied
  by 1 or \<open>- 1\<close>.
\<close>

definition step :: "string \<Rightarrow> solver \<Rightarrow> error + solver" where
  "step data st =
     (let c = char_at data (position st) in
      if is_roman c then
        (case read_number data (position st) of
           (v, p) \<Rightarrow>
             Inr (st\<lparr>out := out st @ [Element_value (v * unarity st)],
                      unarity := 1, position := p\<rparr>))
      else if c = CHR ''('' then
        Inr (st\<lparr>stack := Element_symbol (CHR ''('') BRACKET # stack st,
                 unarity := 1, position := position st + 1\<rparr>)
      else if c = CHR '')'' then
        (case pop_to_bracket (stack st) (out st) of
           ([], out') \<Rightarrow> Inl UnbalancedBrackets
         | (e # stack', out') \<Rightarrow>
             Inr (st\<lparr>stack := stack', out := out',
                      unarity := 1, position := position st + 1\<rparr>))
      else if is_operation c then
        (if is_unary data (position st) then
           Inr (st\<lparr>unarity := - 1, position := position st + 1\<rparr>)
         else
           (let current = Element_symbol c BINARY_OPERATION in
            case pop_priority current (stack st) (out st) of
              (stack', out') \<Rightarrow>
                Inr (st\<lparr>stack := current # stack', out := out',
                         unarity := 1, position := position st + 1\<rparr>)))
      else Inl (BadSymbol (position st + 1)))"

lemma read_number_position:
  assumes "pos < length data" "is_roman (data ! pos)"
  shows "pos < snd (read_number data pos)"
proof -
  have "drop pos data = data ! pos # drop (Suc pos) data"
    using assms(1) by (simp add: Cons_nth_drop_Suc)
  then show ?thesis
    using assms(2) by (simp add: read_number_def Let_def)
qed

lemma step_position:
  "position st < length data \<Longrightarrow> step data st = Inr st' \<Longrightarrow> position st < position st'"
  using read_number_position [of "position st" data]
  by (auto simp: step_def Let_def char_at_def split: if_splits prod.splits list.splits)

function scan :: "string \<Rightarrow> solver \<Rightarrow> error + solver" where
  "scan data st =
     (if position st < length data then
        (case step data st of Inl e \<Rightarrow> Inl e | Inr st' \<Rightarrow> scan data st')
      else Inr st)"
  by pat_completeness auto
termination
proof (relation "measure (\<lambda>(data, st). length data - position st)")
  show "wf (measure (\<lambda>(data, st). length data - position st))" by simp
next
  fix data :: string and st st' :: solver
  assume "position st < length data" "step data st = Inr st'"
  then show "((data, st'), (data, st)) \<in> measure (\<lambda>(data, st). length data - position st)"
    using step_position [of st data st'] by simp
qed

declare scan.simps [simp del]

text \<open>\<^verbatim>\<open>std::isspace\<close> in the "C" locale, which the program never changes.\<close>

definition isspace :: "char \<Rightarrow> bool" where
  "isspace x =
     (x = CHR 0x20 \<or> x = CHR 0x09 \<or> x = CHR 0x0A \<or> x = CHR 0x0B \<or> x = CHR 0x0C \<or> x = CHR 0x0D)"

definition initial :: solver where
  "initial = \<lparr>position = 0, unarity = 1, stack = [], out = []\<rparr>"

text \<open>
  The constructor (lines 257 to 305). Its result is the vector \<^verbatim>\<open>out\<close>, the postfix
  sequence; \<^verbatim>\<open>stack\<close> is empty when it returns.
\<close>

definition ExpressionSolver :: "string \<Rightarrow> error + Element list" where
  "ExpressionSolver expression =
     (let data = filter (\<lambda>x. \<not> isspace x) expression in
      case scan data initial of
        Inl e \<Rightarrow> Inl e
      | Inr st \<Rightarrow> flush (stack st) (out st))"

text \<open>
  The loop of \<^verbatim>\<open>solve\<close> (lines 312 to 337) over the postfix sequence, on the vector
  \<^verbatim>\<open>stack\<close> (top at the head).
\<close>

fun solve_loop :: "Element list \<Rightarrow> Element list \<Rightarrow> error + Element list" where
  "solve_loop [] stk = Inr stk"
| "solve_loop (element # rest) stk =
     (if label element = BINARY_OPERATION then
        (case stk of
           right # left # stack' \<Rightarrow>
             (if label left \<noteq> VALUE \<or> label right \<noteq> VALUE then Inl MalformedExpression
              else
                (case proceed element left right of
                   Inl e \<Rightarrow> Inl e
                 | Inr r \<Rightarrow> solve_loop rest (r # stack')))
         | _ \<Rightarrow> Inl MalformedExpression)
      else solve_loop rest (element # stk))"

text \<open>
  The integer that \<^verbatim>\<open>solve\<close> hands to \<^verbatim>\<open>to_roman\<close> (lines 312 to 343), which the
  specification calls the result of evaluation: \<^verbatim>\<open>stack[0]\<close> is the bottom of the stack,
  the last element of the list. Reading it from an empty vector would be undefined.
\<close>

definition evaluate :: "Element list \<Rightarrow> error + int" where
  "evaluate postfix =
     (case solve_loop postfix [] of
        Inl e \<Rightarrow> Inl e
      | Inr stk \<Rightarrow>
          (if stk = [] then Inl UndefinedBehaviour
           else if label (last stk) \<noteq> VALUE then Inl MalformedExpression
           else Inr (val (last stk))))"

text \<open>\<^verbatim>\<open>solve\<close> (lines 307 to 349), on the postfix sequence left by the constructor.\<close>

definition solve :: "Element list \<Rightarrow> error + string" where
  "solve postfix =
     (if postfix = [] then Inr ''Z''
      else (case evaluate postfix of Inl e \<Rightarrow> Inl e | Inr v \<Rightarrow> to_roman v))"

text \<open>One line of input, as \<^verbatim>\<open>main\<close> treats it (lines 357 and 358).\<close>

definition calc :: "string \<Rightarrow> error + string" where
  "calc s = (case ExpressionSolver s of Inl e \<Rightarrow> Inl e | Inr postfix \<Rightarrow> solve postfix)"

section \<open>Definitions for the statements\<close>

text \<open>
  The decoder in the words of the specification, over any table of pairs: each letter
  adds its additive value, unless the letter before it is worth strictly less, in which
  case the table's entry for the pair is added instead. The text that is the zero symbol
  alone is 0.
\<close>

fun decode_words :: "((char \<times> char) \<times> int) list \<Rightarrow> char option \<Rightarrow> string \<Rightarrow> int" where
  "decode_words table prev [] = 0"
| "decode_words table prev (c # cs) =
     (case prev of
        None \<Rightarrow> at rule_add c
      | Some p \<Rightarrow> if at rule_add p < at rule_add c then at table (p, c) else at rule_add c)
     + decode_words table (Some c) cs"

definition decode :: "((char \<times> char) \<times> int) list \<Rightarrow> string \<Rightarrow> int" where
  "decode table str = (if str = ''Z'' then 0 else decode_words table None str)"

text \<open>The table of pairs as the specification prints it.\<close>

definition combined_values :: "((char \<times> char) \<times> int) list" where
  "combined_values =
     [((CHR ''I'', CHR ''V''), 4), ((CHR ''I'', CHR ''X''), 9),
      ((CHR ''X'', CHR ''L''), 40), ((CHR ''X'', CHR ''C''), 90),
      ((CHR ''C'', CHR ''D''), 400), ((CHR ''C'', CHR ''M''), 900)]"

text \<open>
  The invariant of the round trip: after the letter \<open>p\<close> the value still to be encoded
  is small enough for the next glyph to start with a letter that is not worth more than
  \<open>p\<close>, so that the decoder reads no subtractive pair across two glyphs.
\<close>

definition lim :: "char \<Rightarrow> int \<Rightarrow> bool" where
  "lim p v \<longleftrightarrow> p = CHR 0x00 \<or> p = CHR ''M'' \<or> (p = CHR ''D'' \<and> v < 1000)
     \<or> (p = CHR ''C'' \<and> v < 500) \<or> (p = CHR ''L'' \<and> v < 100) \<or> (p = CHR ''X'' \<and> v < 50)
     \<or> (p = CHR ''V'' \<and> v < 10) \<or> (p = CHR ''I'' \<and> v < 5)"

text \<open>
  The first \<open>n\<close> rounds of the loop of the constructor: the states it passes through are
  the results of \<open>steps n\<close> from the initial state.
\<close>

fun steps :: "nat \<Rightarrow> string \<Rightarrow> solver \<Rightarrow> error + solver" where
  "steps 0 data st = Inr st"
| "steps (Suc n) data st =
     (if position st < length data then
        (case step data st of Inl e \<Rightarrow> Inl e | Inr st' \<Rightarrow> steps n data st')
      else Inr st)"

section \<open>The codec: encoding, decoding and the round trip\<close>

lemma to_roman_loop_step:
  "0 < v \<Longrightarrow> first_fit v weight = Some w \<Longrightarrow>
     to_roman_loop v r = to_roman_loop (v - fst w) (r @ snd w)"
  by (subst to_roman_loop.simps) simp

lemma to_roman_loop_done: "v \<le> 0 \<Longrightarrow> to_roman_loop v r = r"
  by (subst to_roman_loop.simps) simp

lemma to_roman_loop_acc: "to_roman_loop v r = r @ to_roman_loop v []"
proof (induction "nat v" arbitrary: v r rule: less_induct)
  case less
  show ?case
  proof (cases "0 < v")
    case False
    then show ?thesis by (simp add: to_roman_loop_done)
  next
    case True
    then obtain w where w: "first_fit v weight = Some w" "0 < fst w" "fst w \<le> v"
      using first_fit_weight by blast
    have smaller: "nat (v - fst w) < nat v" using True w by simp
    have "to_roman_loop v r = to_roman_loop (v - fst w) (r @ snd w)"
      by (rule to_roman_loop_step [OF True w(1)])
    also have "\<dots> = (r @ snd w) @ to_roman_loop (v - fst w) []"
      by (rule less [OF smaller])
    finally have a: "to_roman_loop v r = r @ snd w @ to_roman_loop (v - fst w) []"
      by simp
    have "to_roman_loop v [] = to_roman_loop (v - fst w) ([] @ snd w)"
      by (rule to_roman_loop_step [OF True w(1)])
    also have "\<dots> = ([] @ snd w) @ to_roman_loop (v - fst w) []"
      by (rule less [OF smaller])
    finally have b: "to_roman_loop v [] = snd w @ to_roman_loop (v - fst w) []"
      by simp
    show ?thesis
      by (simp only: a b)
  qed
qed

lemma rule_add_values:
  "at rule_add (CHR ''I'') = 1" "at rule_add (CHR ''V'') = 5" "at rule_add (CHR ''X'') = 10"
  "at rule_add (CHR ''L'') = 50" "at rule_add (CHR ''C'') = 100" "at rule_add (CHR ''D'') = 500"
  "at rule_add (CHR ''M'') = 1000"
  by (simp_all add: at_def rule_add_def)

lemma rule_div_values:
  "at rule_div (CHR ''I'', CHR ''V'') = 3" "at rule_div (CHR ''I'', CHR ''X'') = 8"
  "at rule_div (CHR ''X'', CHR ''L'') = 30" "at rule_div (CHR ''X'', CHR ''C'') = 80"
  "at rule_div (CHR ''C'', CHR ''D'') = 300" "at rule_div (CHR ''C'', CHR ''M'') = 800"
  by (simp_all add: at_def rule_div_def)

lemma first_fit_cases:
  assumes "0 < v" "first_fit v weight = Some w"
  shows "(1000 \<le> v \<and> w = (1000, ''M'')) \<or> (900 \<le> v \<and> v < 1000 \<and> w = (900, ''CM''))
       \<or> (500 \<le> v \<and> v < 900 \<and> w = (500, ''D'')) \<or> (400 \<le> v \<and> v < 500 \<and> w = (400, ''CD''))
       \<or> (100 \<le> v \<and> v < 400 \<and> w = (100, ''C'')) \<or> (90 \<le> v \<and> v < 100 \<and> w = (90, ''XC''))
       \<or> (50 \<le> v \<and> v < 90 \<and> w = (50, ''L'')) \<or> (40 \<le> v \<and> v < 50 \<and> w = (40, ''XL''))
       \<or> (10 \<le> v \<and> v < 40 \<and> w = (10, ''X'')) \<or> (9 \<le> v \<and> v < 10 \<and> w = (9, ''IX''))
       \<or> (5 \<le> v \<and> v < 9 \<and> w = (5, ''V'')) \<or> (4 \<le> v \<and> v < 5 \<and> w = (4, ''IV''))
       \<or> (1 \<le> v \<and> v < 4 \<and> w = (1, ''I''))"
  using assms by (simp add: weight_def split: if_splits)

lemma decode_encode_loop:
  "0 \<le> v \<Longrightarrow> lim p v \<Longrightarrow> to_int64_loop p acc (to_roman_loop v []) = acc + v"
proof (induction "nat v" arbitrary: v p acc rule: less_induct)
  case less
  show ?case
  proof (cases "0 < v")
    case False
    then show ?thesis using less.prems by (simp add: to_roman_loop_done)
  next
    case True
    then obtain w where w: "first_fit v weight = Some w" "0 < fst w" "fst w \<le> v"
      using first_fit_weight by blast
    have smaller: "nat (v - fst w) < nat v" using True w by simp
    have unfold: "to_roman_loop v [] = snd w @ to_roman_loop (v - fst w) []"
      using to_roman_loop_step [OF True w(1), of "[]"] to_roman_loop_acc [of "v - fst w" "snd w"] by simp
    have IH: "\<And>q a. lim q (v - fst w) \<Longrightarrow> to_int64_loop q a (to_roman_loop (v - fst w) []) = a + (v - fst w)"
      using less.hyps [OF smaller] w by simp
    note vals = rule_add_values rule_div_values
    from less.prems(2) have p: "p = CHR 0x00 \<or> p = CHR ''M'' \<or> (p = CHR ''D'' \<and> v < 1000)
     \<or> (p = CHR ''C'' \<and> v < 500) \<or> (p = CHR ''L'' \<and> v < 100) \<or> (p = CHR ''X'' \<and> v < 50)
     \<or> (p = CHR ''V'' \<and> v < 10) \<or> (p = CHR ''I'' \<and> v < 5)" by (simp add: lim_def)
    from first_fit_cases [OF True w(1)] show ?thesis
    proof (elim disjE conjE)
      assume "1000 \<le> v" "w = (1000, ''M'')"
      then show ?thesis using p IH [of "CHR ''M''"] unfolding unfold
        by (elim disjE conjE) (simp_all add: vals lim_def)
    next
      assume "900 \<le> v" "v < 1000" "w = (900, ''CM'')"
      then show ?thesis using p IH [of "CHR ''M''"] unfolding unfold
        by (elim disjE conjE) (simp_all add: vals lim_def)
    next
      assume "500 \<le> v" "v < 900" "w = (500, ''D'')"
      then show ?thesis using p IH [of "CHR ''D''"] unfolding unfold
        by (elim disjE conjE) (simp_all add: vals lim_def)
    next
      assume "400 \<le> v" "v < 500" "w = (400, ''CD'')"
      then show ?thesis using p IH [of "CHR ''D''"] unfolding unfold
        by (elim disjE conjE) (simp_all add: vals lim_def)
    next
      assume "100 \<le> v" "v < 400" "w = (100, ''C'')"
      then show ?thesis using p IH [of "CHR ''C''"] unfolding unfold
        by (elim disjE conjE) (simp_all add: vals lim_def)
    next
      assume "90 \<le> v" "v < 100" "w = (90, ''XC'')"
      then show ?thesis using p IH [of "CHR ''C''"] unfolding unfold
        by (elim disjE conjE) (simp_all add: vals lim_def)
    next
      assume "50 \<le> v" "v < 90" "w = (50, ''L'')"
      then show ?thesis using p IH [of "CHR ''L''"] unfolding unfold
        by (elim disjE conjE) (simp_all add: vals lim_def)
    next
      assume "40 \<le> v" "v < 50" "w = (40, ''XL'')"
      then show ?thesis using p IH [of "CHR ''L''"] unfolding unfold
        by (elim disjE conjE) (simp_all add: vals lim_def)
    next
      assume "10 \<le> v" "v < 40" "w = (10, ''X'')"
      then show ?thesis using p IH [of "CHR ''X''"] unfolding unfold
        by (elim disjE conjE) (simp_all add: vals lim_def)
    next
      assume "9 \<le> v" "v < 10" "w = (9, ''IX'')"
      then show ?thesis using p IH [of "CHR ''X''"] unfolding unfold
        by (elim disjE conjE) (simp_all add: vals lim_def)
    next
      assume "5 \<le> v" "v < 9" "w = (5, ''V'')"
      then show ?thesis using p IH [of "CHR ''V''"] unfolding unfold
        by (elim disjE conjE) (simp_all add: vals lim_def)
    next
      assume "4 \<le> v" "v < 5" "w = (4, ''IV'')"
      then show ?thesis using p IH [of "CHR ''V''"] unfolding unfold
        by (elim disjE conjE) (simp_all add: vals lim_def)
    next
      assume "1 \<le> v" "v < 4" "w = (1, ''I'')"
      then show ?thesis using p IH [of "CHR ''I''"] unfolding unfold
        by (elim disjE conjE) (simp_all add: vals lim_def)
    qed
  qed
qed

lemma to_int64_eq_loop: "to_int64 str = to_int64_loop (CHR 0x00) 0 str"
proof (cases "length str = 1 \<and> str ! 0 = CHR ''Z''")
  case True
  then have "str = ''Z''"
    by (cases str) auto
  then show ?thesis
    by (simp add: to_int64_def at_def rule_add_def)
next
  case False
  show ?thesis
    by (simp only: to_int64_def False if_False)
qed

lemma to_int64_loop_decode_words:
  "CHR 0x00 \<notin> set str \<Longrightarrow>
     to_int64_loop p acc str =
       acc + decode_words rule_div (if p = CHR 0x00 then None else Some p) str"
  by (induction str arbitrary: p acc) auto

lemma in_bound_not_least: "\<bar>v\<bar> \<le> 3999 \<Longrightarrow> v \<noteq> INT64_MIN"
  by (auto simp: INT64_MIN_def)

lemma to_roman_in_bound:
  assumes "v \<noteq> 0" and "\<bar>v\<bar> \<le> 3999"
  shows "to_roman v = Inr ((if v < 0 then ''-'' else []) @ to_roman_loop \<bar>v\<bar> [])"
proof (cases "v < 0")
  case True
  have "to_roman v = Inr (to_roman_loop \<bar>v\<bar> ''-'')"
    using assms True in_bound_not_least [OF assms(2)] by (simp add: to_roman_def BOUND_def)
  then show ?thesis
    using True to_roman_loop_acc [of "\<bar>v\<bar>" "''-''"] by simp
next
  case False
  then show ?thesis
    using assms in_bound_not_least [OF assms(2)] by (simp add: to_roman_def BOUND_def)
qed

lemma to_roman_Overflow_iff:
  "v \<noteq> INT64_MIN \<Longrightarrow> to_roman v = Inl Overflow \<longleftrightarrow> \<bar>v\<bar> > 3999"
  by (simp add: to_roman_def BOUND_def)

lemma to_roman_succeeds:
  "\<bar>v\<bar> \<le> 3999 \<Longrightarrow> \<exists>s. to_roman v = Inr s"
  using in_bound_not_least [of v] by (simp add: to_roman_def BOUND_def)

text \<open>
  Claim C2, as amended. For every integer \<open>v\<close> with \<open>0 < v \<le> 3999\<close>, decoding the text
  that encodes \<open>v\<close> gives \<open>v\<close> back: \<open>to_int64 (to_roman v) = v\<close>. The text that encodes
  \<open>- v\<close> is that text behind a minus sign.
\<close>

theorem to_int64_to_roman:
  assumes "0 < v" and "v \<le> 3999"
  shows "\<exists>s. to_roman v = Inr s \<and> to_int64 s = v \<and> to_roman (- v) = Inr (CHR ''-'' # s)"
proof -
  have "lim (CHR 0x00) v"
    by (simp add: lim_def)
  then have "to_int64 (to_roman_loop v []) = v"
    using assms(1) decode_encode_loop [of v "CHR 0x00" 0] by (simp add: to_int64_eq_loop)
  moreover have "to_roman v = Inr (to_roman_loop v [])"
    using assms to_roman_in_bound [of v] by simp
  moreover have "to_roman (- v) = Inr (CHR ''-'' # to_roman_loop v [])"
    using assms to_roman_in_bound [of "- v"] by simp
  ultimately show ?thesis
    by simp
qed

theorem to_int64_to_roman_witness:
  "(0 :: int) < 14 \<and> (14 :: int) \<le> 3999
   \<and> (\<exists>s. to_roman 14 = Inr s \<and> to_int64 s = 14 \<and> to_roman (- 14) = Inr (CHR ''-'' # s))"
  using to_int64_to_roman [of 14] by simp

text \<open>
  Claim C2 as it was written fails for a negative value: the text of \<open>- 5\<close> is \<open>-V\<close>, and
  the decoder, which knows no sign, reads it as 0.
\<close>

theorem to_int64_to_roman_negative:
  "to_roman (- 5) = Inr ''-V'' \<and> to_int64 ''-V'' = 0 \<and> to_int64 ''-V'' \<noteq> - 5"
  by code_simp

text \<open>
  Claim C4, as amended. \<open>to_int64\<close> scans its text from left to right and adds each
  letter's additive value, except that after a letter worth strictly less it adds the
  entry of the pair in the table \<open>rule_div\<close> instead, which is (I,V):3, (I,X):8, (X,L):30,
  (X,C):80, (C,D):300, (C,M):800 and zero for any other pair: the combined value of the
  pair less the first letter's value, which has been added already. So \<open>IV\<close> decodes
  to 4.
\<close>

theorem to_int64_decode:
  assumes "CHR 0x00 \<notin> set str"
  shows "to_int64 str = decode rule_div str
    \<and> map snd rule_div = [3, 8, 30, 80, 300, 800]
    \<and> map fst rule_div = map fst combined_values
    \<and> to_int64 ''IV'' = 4"
proof -
  have "to_int64 str = decode rule_div str"
  proof (cases "str = ''Z''")
    case True
    then show ?thesis
      by (simp add: to_int64_def decode_def)
  next
    case False
    then have "\<not> (length str = 1 \<and> str ! 0 = CHR ''Z'')"
      by (cases str) auto
    then have "to_int64 str = to_int64_loop (CHR 0x00) 0 str"
      by (simp only: to_int64_def if_False)
    then show ?thesis
      using False assms to_int64_loop_decode_words [of str "CHR 0x00" 0]
      by (simp add: decode_def)
  qed
  moreover have "to_int64 ''IV'' = 4"
    by (simp add: to_int64_def rule_add_values rule_div_values)
  ultimately show ?thesis
    by (simp add: rule_div_def combined_values_def)
qed

theorem to_int64_decode_witness:
  "CHR 0x00 \<notin> set ''MCMXCIV''
   \<and> to_int64 ''MCMXCIV'' = decode rule_div ''MCMXCIV''
   \<and> decode rule_div ''MCMXCIV'' = 1994"
proof -
  have "CHR 0x00 \<notin> set ''MCMXCIV''"
    by simp
  moreover from this have "to_int64 ''MCMXCIV'' = decode rule_div ''MCMXCIV''"
    using to_int64_decode [of "''MCMXCIV''"] by blast
  moreover have "decode rule_div ''MCMXCIV'' = 1994"
    by code_simp
  ultimately show ?thesis
    by blast
qed

text \<open>
  Claim C4 as it was written fails: the table of the program holds 3 for the pair (I,V),
  not 4, and the scan described, run over the table of combined values, reads \<open>IV\<close> as
  5 where the program reads 4.
\<close>

theorem combined_values_differ:
  "at rule_div (CHR ''I'', CHR ''V'') = 3
   \<and> at combined_values (CHR ''I'', CHR ''V'') = 4
   \<and> decode combined_values ''IV'' = 5
   \<and> to_int64 ''IV'' = 4"
  by code_simp

text \<open>
  Claim C7 at the least \<^verbatim>\<open>int64_t\<close>. The line \<open>-II*II*\<dots>*II\<close> with 63 factors evaluates
  to \<open>- (2 ^ 63)\<close> without any overflow; \<open>to_roman\<close> then takes \<^verbatim>\<open>std::abs\<close> of it, which
  C++ leaves undefined, where the claim asks for the overflow error. For every other
  value the claim holds: \<open>to_roman_Overflow_iff\<close> and \<open>to_roman_succeeds\<close>.
\<close>

theorem to_roman_least_int64:
  "(case ExpressionSolver (''-II'' @ concat (replicate 62 ''*II'')) of
      Inl e \<Rightarrow> Inl e | Inr postfix \<Rightarrow> evaluate postfix) = Inr (- (2 ^ 63))
   \<and> to_roman (- (2 ^ 63)) = Inl UndefinedBehaviour
   \<and> to_roman (- (2 ^ 63)) \<noteq> Inl Overflow"
  by code_simp

section \<open>The division of the evaluator\<close>

lemma ceil_div_neg:
  fixes a b :: int
  assumes "0 < b"
  shows "- ((a + b - 1) div b) = (- a) div b"
proof (cases "a mod b = 0")
  case True
  have "a + b - 1 = b * (a div b) + (b - 1)"
    using True mult_div_mod_eq [of b a] by linarith
  then have "(a + b - 1) div b = a div b"
    using assms by (intro int_div_pos_eq [where r = "b - 1"]) simp_all
  then show ?thesis
    using True assms by (simp add: zdiv_zminus1_eq_if)
next
  case False
  have r: "0 < a mod b" "a mod b < b"
    using False assms pos_mod_sign [of b a] pos_mod_bound [of b a] by linarith+
  have "a + b - 1 = b * (a div b + 1) + (a mod b - 1)"
    by (simp add: algebra_simps)
  then have "(a + b - 1) div b = a div b + 1"
    using r by (intro int_div_pos_eq [where r = "a mod b - 1"]) simp_all
  then show ?thesis
    using False assms by (simp add: zdiv_zminus1_eq_if)
qed

lemma int32_id: "\<bar>x\<bar> < 2 ^ 31 \<Longrightarrow> int32 x = x"
  by (simp add: int32_def)

lemma int32_mod: "int32 x mod 2 ^ 32 = x mod 2 ^ 32"
proof -
  have "((x + 2 ^ 31) mod 2 ^ 32 - 2 ^ 31) mod 2 ^ 32 = ((x + 2 ^ 31) - 2 ^ 31) mod 2 ^ 32"
    by (rule mod_diff_left_eq)
  then show ?thesis
    by (simp add: int32_def)
qed

lemma int32_range: "INT_MIN \<le> int32 x \<and> int32 x \<le> INT_MAX"
  using pos_mod_sign [of "2 ^ 32" "x + 2 ^ 31"] pos_mod_bound [of "2 ^ 32" "x + 2 ^ 31"]
  by (simp add: int32_def INT_MIN_def INT_MAX_def)

lemma divide'_floor:
  assumes "r \<noteq> 0" and "\<bar>l\<bar> + \<bar>r\<bar> < 2 ^ 31"
  shows "divide' l r = Inr (l div r)"
proof -
  consider "l = 0" | "0 < l" "0 < r" | "l < 0" "r < 0" | "0 < l" "r < 0" | "l < 0" "0 < r"
    using assms(1) by linarith
  then show ?thesis
  proof cases
    case 1
    then show ?thesis using assms by (auto simp: divide'_def INT_MIN_def)
  next
    case 2
    then show ?thesis using assms by (simp add: divide'_def INT_MIN_def signed_divide_int_def)
  next
    case 3
    then have "l sdiv r = (- l) div (- r)"
      by (simp add: signed_divide_int_def)
    then show ?thesis using 3 assms by (simp add: divide'_def INT_MIN_def)
  next
    case 4
    have "(- (l + - r - 1)) sdiv (- r) = - ((l + - r - 1) div (- r))"
      using 4 by (simp add: signed_divide_int_def)
    also have "\<dots> = (- l) div (- r)"
      using 4 ceil_div_neg [of "- r" l] by simp
    finally show ?thesis using 4 assms by (simp add: divide'_def INT_MIN_def INT_MAX_def)
  next
    case 5
    have "(- (- l + r - 1)) sdiv r = - ((- l + r - 1) div r)"
      using 5 by (simp add: signed_divide_int_def)
    also have "\<dots> = l div r"
      using 5 ceil_div_neg [of r "- l"] by simp
    finally show ?thesis using 5 assms by (simp add: divide'_def INT_MIN_def INT_MAX_def)
  qed
qed


text \<open>
  Claim C1, as amended. Applied to \<open>/\<close>, \<open>proceed\<close> fails with \<open>DivisionByZero\<close> when the
  right operand is 0; otherwise, for operands whose absolute values add up to less than
  \<open>2 ^ 31\<close>, its result is the quotient rounded towards minus infinity (\<open>div\<close> on \<^typ>\<open>int\<close>
  is that quotient), whatever the signs. Evaluating the postfix sequence of \<open>- 7\<close>, 2 and
  \<open>/\<close> returns \<open>- 4\<close>.
\<close>

theorem proceed_divide_floor:
  "(val right = 0 \<longrightarrow>
      proceed (Element_symbol (CHR ''/'') BINARY_OPERATION) left right = Inl DivisionByZero)
   \<and> (val right \<noteq> 0 \<and> \<bar>val left\<bar> + \<bar>val right\<bar> < 2 ^ 31 \<longrightarrow>
      proceed (Element_symbol (CHR ''/'') BINARY_OPERATION) left right
        = Inr (Element_value (val left div val right)))
   \<and> evaluate [Element_value (- 7), Element_value 2,
        Element_symbol (CHR ''/'') BINARY_OPERATION] = Inr (- 4)"
proof (intro conjI impI)
  assume "val right = 0"
  then show "proceed (Element_symbol (CHR ''/'') BINARY_OPERATION) left right = Inl DivisionByZero"
    by (simp add: proceed_def Element_symbol_def)
next
  assume a: "val right \<noteq> 0 \<and> \<bar>val left\<bar> + \<bar>val right\<bar> < 2 ^ 31"
  then have "\<bar>val left\<bar> < 2 ^ 31" "\<bar>val right\<bar> < 2 ^ 31"
    by auto
  then have "int32 (val left) = val left" "int32 (val right) = val right"
    by (simp_all only: int32_id)
  then show "proceed (Element_symbol (CHR ''/'') BINARY_OPERATION) left right
        = Inr (Element_value (val left div val right))"
    using a divide'_floor [of "val right" "val left"]
    by (simp add: proceed_def Element_symbol_def new_Element_def)
next
  show "evaluate [Element_value (- 7), Element_value 2,
        Element_symbol (CHR ''/'') BINARY_OPERATION] = Inr (- 4)"
    by code_simp
qed

theorem proceed_divide_floor_witness:
  "val (Element_value 2) \<noteq> 0
   \<and> \<bar>val (Element_value (- 7))\<bar> + \<bar>val (Element_value 2)\<bar> < 2 ^ 31
   \<and> proceed (Element_symbol (CHR ''/'') BINARY_OPERATION) (Element_value (- 7)) (Element_value 2)
        = Inr (Element_value (- 4))"
  using proceed_divide_floor [where left = "Element_value (- 7)" and right = "Element_value 2"]
  by (simp add: Element_value_def)

text \<open>
  Claim C1 as it was written fails: the sequence of \<open>- 7\<close>, 2 and \<open>/\<close> evaluates to \<open>- 4\<close>,
  not to the truncated quotient \<open>- 3\<close>.
\<close>

theorem evaluate_divide_not_truncated:
  "evaluate [Element_value (- 7), Element_value 2,
     Element_symbol (CHR ''/'') BINARY_OPERATION] = Inr (- 4)
   \<and> evaluate [Element_value (- 7), Element_value 2,
     Element_symbol (CHR ''/'') BINARY_OPERATION] \<noteq> Inr (- 3)
   \<and> (- 7) sdiv 2 = (- 3 :: int)"
  by code_simp

text \<open>
  Claim C10. Applied to \<open>/\<close> with a right operand other than 0, \<open>proceed\<close> divides the two
  operands reduced modulo \<open>2 ^ 32\<close> into the range of a 32-bit integer. The operands
  \<open>2 ^ 32 + 6\<close> and 3 fit in 64 bits, the first does not fit in 32, and the result is 2
  where the division of the operands themselves gives 1431655767. The input line
  \<open>(II*II*\<dots>*II+VI)/III\<close> with 32 factors reaches these operands and prints \<open>II\<close>.
\<close>

theorem proceed_divide_narrows:
  "(\<forall>left right. val right \<noteq> 0 \<longrightarrow>
      proceed (Element_symbol (CHR ''/'') BINARY_OPERATION) left right
        = new_Element (divide' (int32 (val left)) (int32 (val right))))
   \<and> (\<forall>x. INT_MIN \<le> int32 x \<and> int32 x \<le> INT_MAX \<and> int32 x mod 2 ^ 32 = x mod 2 ^ 32)
   \<and> INT64_MIN \<le> 2 ^ 32 + 6 \<and> 2 ^ 32 + 6 \<le> INT64_MAX \<and> INT_MAX < 2 ^ 32 + 6
   \<and> proceed (Element_symbol (CHR ''/'') BINARY_OPERATION)
        (Element_value (2 ^ 32 + 6)) (Element_value 3) = Inr (Element_value 2)
   \<and> (2 ^ 32 + 6) sdiv 3 = (1431655767 :: int)
   \<and> calc (''(II'' @ concat (replicate 31 ''*II'') @ ''+VI)/III'') = Inr ''II''"
proof -
  have "\<forall>left right. val right \<noteq> 0 \<longrightarrow>
      proceed (Element_symbol (CHR ''/'') BINARY_OPERATION) left right
        = new_Element (divide' (int32 (val left)) (int32 (val right)))"
    by (simp add: proceed_def Element_symbol_def)
  moreover have "\<forall>x. INT_MIN \<le> int32 x \<and> int32 x \<le> INT_MAX \<and> int32 x mod 2 ^ 32 = x mod 2 ^ 32"
    using int32_range int32_mod by simp
  moreover have "INT64_MIN \<le> 2 ^ 32 + 6 \<and> 2 ^ 32 + 6 \<le> INT64_MAX \<and> INT_MAX < 2 ^ 32 + 6"
    by (simp add: INT64_MIN_def INT64_MAX_def INT_MAX_def)
  moreover have "proceed (Element_symbol (CHR ''/'') BINARY_OPERATION)
        (Element_value (2 ^ 32 + 6)) (Element_value 3) = Inr (Element_value 2)"
    by code_simp
  moreover have "(2 ^ 32 + 6) sdiv 3 = (1431655767 :: int)"
    by code_simp
  moreover have "calc (''(II'' @ concat (replicate 31 ''*II'') @ ''+VI)/III'') = Inr ''II''"
    by code_simp
  ultimately show ?thesis
    by blast
qed

theorem proceed_divide_narrows_witness:
  "val (Element_value (2 ^ 32 + 2)) \<noteq> 0
   \<and> proceed (Element_symbol (CHR ''/'') BINARY_OPERATION)
        (Element_value 7) (Element_value (2 ^ 32 + 2))
      = new_Element (divide' (int32 7) (int32 (2 ^ 32 + 2)))
   \<and> new_Element (divide' (int32 7) (int32 (2 ^ 32 + 2))) = Inr (Element_value 3)"
proof -
  have nz: "val (Element_value (2 ^ 32 + 2)) \<noteq> 0"
    by (simp add: Element_value_def)
  have "proceed (Element_symbol (CHR ''/'') BINARY_OPERATION)
        (Element_value 7) (Element_value (2 ^ 32 + 2))
      = new_Element (divide' (int32 (val (Element_value 7))) (int32 (val (Element_value (2 ^ 32 + 2)))))"
    using proceed_divide_narrows nz by blast
  moreover have "new_Element (divide' (int32 7) (int32 (2 ^ 32 + 2))) = Inr (Element_value 3)"
    by code_simp
  ultimately show ?thesis
    using nz by (simp add: Element_value_def)
qed

section \<open>The parser and the evaluator\<close>

lemma pop_to_bracket_eq:
  "pop_to_bracket stk outs =
     (dropWhile (\<lambda>e. label e \<noteq> BRACKET) stk, outs @ takeWhile (\<lambda>e. label e \<noteq> BRACKET) stk)"
  by (induction stk arbitrary: outs) simp_all

lemma pop_priority_eq:
  "pop_priority current stk outs =
     (dropWhile (\<lambda>e. priority e \<ge> priority current) stk,
      outs @ takeWhile (\<lambda>e. priority e \<ge> priority current) stk)"
  by (induction stk arbitrary: outs) simp_all

lemma not_roman [simp]:
  "\<not> is_roman (CHR ''('')" "\<not> is_roman (CHR '')'')" "\<not> is_roman (CHR ''+'')"
  "\<not> is_roman (CHR ''-'')" "\<not> is_roman (CHR ''*'')" "\<not> is_roman (CHR ''/'')"
  "\<not> is_roman (CHR 0x00)"
  by (simp_all add: is_roman_def available_symbols_def)

lemma step_close_bracket:
  "char_at data (position st) = CHR '')'' \<Longrightarrow>
     step data st =
       (case dropWhile (\<lambda>e. label e \<noteq> BRACKET) (stack st) of
          [] \<Rightarrow> Inl UnbalancedBrackets
        | e # stack' \<Rightarrow>
            Inr (st\<lparr>stack := stack',
                     out := out st @ takeWhile (\<lambda>e. label e \<noteq> BRACKET) (stack st),
                     unarity := 1, position := position st + 1\<rparr>))"
  by (simp add: step_def pop_to_bracket_eq)

lemma step_UnbalancedBrackets_iff:
  "step data st = Inl UnbalancedBrackets \<longleftrightarrow>
     char_at data (position st) = CHR '')'' \<and> (\<forall>e\<in>set (stack st). label e \<noteq> BRACKET)"
proof (cases "char_at data (position st) = CHR '')''")
  case True
  show ?thesis
  proof (cases "dropWhile (\<lambda>e. label e \<noteq> BRACKET) (stack st)")
    case Nil
    then have "\<forall>e\<in>set (stack st). label e \<noteq> BRACKET"
      using dropWhile_eq_Nil_conv [of "\<lambda>e. label e \<noteq> BRACKET" "stack st"] by simp
    moreover have "step data st = Inl UnbalancedBrackets"
      by (simp only: step_close_bracket [OF True] Nil list.case)
    ultimately show ?thesis
      using True by simp
  next
    case (Cons e stack')
    then have "\<not> (\<forall>e\<in>set (stack st). label e \<noteq> BRACKET)"
      using dropWhile_eq_Nil_conv [of "\<lambda>e. label e \<noteq> BRACKET" "stack st"] by simp
    moreover have "step data st \<noteq> Inl UnbalancedBrackets"
      by (simp only: step_close_bracket [OF True] Cons list.case) simp
    ultimately show ?thesis
      by simp
  qed
next
  case False
  then show ?thesis
    by (auto simp: step_def Let_def split: prod.splits list.splits)
qed

lemma flush_Inl_iff:
  "flush stk outs = Inl e \<longleftrightarrow>
     e = UnbalancedBrackets \<and> (\<exists>x\<in>set stk. label x \<noteq> BINARY_OPERATION)"
  by (induction stk arbitrary: outs) auto

lemma scan_Inl_steps:
  "scan data st = Inl e \<Longrightarrow>
     \<exists>n st'. steps n data st = Inr st' \<and> position st' < length data \<and> step data st' = Inl e"
proof (induction data st rule: scan.induct)
  case (1 data st)
  from "1.prems" have pos: "position st < length data"
    by (simp add: scan.simps split: if_splits)
  show ?case
  proof (cases "step data st")
    case (Inl e')
    then have "step data st = Inl e"
      using "1.prems" pos by (simp add: scan.simps)
    then have "steps 0 data st = Inr st \<and> position st < length data \<and> step data st = Inl e"
      using pos by simp
    then show ?thesis by blast
  next
    case (Inr st1)
    then have "scan data st1 = Inl e"
      using "1.prems" pos by (simp add: scan.simps)
    then obtain n st' where
      "steps n data st1 = Inr st'" "position st' < length data" "step data st' = Inl e"
      using "1.IH" [OF pos Inr] by blast
    then have "steps (Suc n) data st = Inr st' \<and> position st' < length data \<and> step data st' = Inl e"
      using pos Inr by simp
    then show ?thesis by blast
  qed
qed

lemma steps_scan_Inl:
  "steps n data st = Inr st' \<Longrightarrow> position st' < length data \<Longrightarrow> step data st' = Inl e \<Longrightarrow>
     scan data st = Inl e"
proof (induction n arbitrary: st)
  case 0
  then show ?case by (simp add: scan.simps)
next
  case (Suc n)
  show ?case
  proof (cases "position st < length data")
    case False
    then show ?thesis using Suc.prems by simp
  next
    case True
    then obtain st1 where st1: "step data st = Inr st1" "steps n data st1 = Inr st'"
      using Suc.prems(1) by (cases "step data st") simp_all
    then have "scan data st1 = Inl e"
      using Suc.IH Suc.prems by blast
    then show ?thesis
      using True st1 by (simp add: scan.simps)
  qed
qed

lemma dropWhile_Cons_subset:
  "dropWhile P xs = y # ys \<Longrightarrow> set ys \<subseteq> set xs"
  using set_dropWhileD [of _ P xs] by auto

lemma step_stack_labels:
  assumes "step data st = Inr st'" and "\<forall>e\<in>set (stack st). label e \<noteq> VALUE"
  shows "\<forall>e\<in>set (stack st'). label e \<noteq> VALUE"
proof -
  let ?c = "char_at data (position st)"
  consider "is_roman ?c" | "?c = CHR ''(''" | "?c = CHR '')''"
    | "\<not> is_roman ?c" "?c \<noteq> CHR ''(''" "?c \<noteq> CHR '')''" "is_operation ?c"
    | "\<not> is_roman ?c" "?c \<noteq> CHR ''(''" "?c \<noteq> CHR '')''" "\<not> is_operation ?c"
    by blast
  then show ?thesis
  proof cases
    case 1
    then show ?thesis
      using assms by (auto simp: step_def Let_def split: prod.splits)
  next
    case 2
    then show ?thesis
      using assms by (auto simp: step_def Let_def Element_symbol_def)
  next
    case 3
    then show ?thesis
      using assms dropWhile_Cons_subset [of "\<lambda>e. label e \<noteq> BRACKET" "stack st"]
      by (auto simp: step_close_bracket split: list.splits)
  next
    case 4
    then show ?thesis
      using assms set_dropWhileD [of _ "\<lambda>e. priority e \<ge> priority (Element_symbol ?c BINARY_OPERATION)" "stack st"]
      by (auto simp: step_def Let_def pop_priority_eq Element_symbol_def split: if_splits)
  next
    case 5
    then show ?thesis
      using assms by (simp add: step_def Let_def)
  qed
qed

lemma scan_stack_labels:
  "scan data st = Inr st' \<Longrightarrow> \<forall>e\<in>set (stack st). label e \<noteq> VALUE \<Longrightarrow>
     \<forall>e\<in>set (stack st'). label e \<noteq> VALUE"
proof (induction data st rule: scan.induct)
  case (1 data st)
  show ?case
  proof (cases "position st < length data")
    case False
    then show ?thesis
      using "1.prems" by (simp add: scan.simps)
  next
    case True
    then obtain st1 where st1: "step data st = Inr st1" "scan data st1 = Inr st'"
      using "1.prems"(1) by (cases "step data st") (simp_all add: scan.simps)
    then show ?thesis
      using "1.IH" [OF True st1(1)] step_stack_labels [OF st1(1) "1.prems"(2)] by blast
  qed
qed

lemma label_cases: "label e \<noteq> VALUE \<Longrightarrow> label e \<noteq> BINARY_OPERATION \<longleftrightarrow> label e = BRACKET"
  by (cases "label e") simp_all

text \<open>
  Claim C8. The constructor fails with \<open>UnbalancedBrackets\<close> in exactly two situations:
  the loop reaches a close bracket in a state whose operator stack holds no bracket (the
  stack empties before an open bracket is found), or the loop ends in a state whose
  operator stack still holds a bracket. Both \<open>(II+III\<close> and \<open>II+III)\<close> fail so.
\<close>

theorem UnbalancedBrackets_iff:
  "(ExpressionSolver expression = Inl UnbalancedBrackets \<longleftrightarrow>
      (\<exists>n st. steps n (filter (\<lambda>x. \<not> isspace x) expression) initial = Inr st
         \<and> char_at (filter (\<lambda>x. \<not> isspace x) expression) (position st) = CHR '')''
         \<and> (\<forall>e\<in>set (stack st). label e \<noteq> BRACKET))
      \<or> (\<exists>st. scan (filter (\<lambda>x. \<not> isspace x) expression) initial = Inr st
         \<and> (\<exists>e\<in>set (stack st). label e = BRACKET)))
   \<and> ExpressionSolver ''(II+III'' = Inl UnbalancedBrackets
   \<and> ExpressionSolver ''II+III)'' = Inl UnbalancedBrackets"
proof -
  define data where "data = filter (\<lambda>x. \<not> isspace x) expression"
  have in_text: "position st < length data" if "char_at data (position st) = CHR '')''" for st
    using that by (simp add: char_at_def split: if_splits)
  have scan_fails: "scan data initial = Inl UnbalancedBrackets \<longleftrightarrow>
      (\<exists>n st. steps n data initial = Inr st \<and> char_at data (position st) = CHR '')''
         \<and> (\<forall>e\<in>set (stack st). label e \<noteq> BRACKET))"
    using scan_Inl_steps [of data initial UnbalancedBrackets]
      steps_scan_Inl [of _ data initial _ UnbalancedBrackets] in_text
    by (metis step_UnbalancedBrackets_iff)
  have flush_fails: "flush (stack st) (out st) = Inl UnbalancedBrackets \<longleftrightarrow>
      (\<exists>e\<in>set (stack st). label e = BRACKET)" if "scan data initial = Inr st" for st
  proof -
    have "\<forall>e\<in>set (stack st). label e \<noteq> VALUE"
      using scan_stack_labels [OF that] by (simp add: initial_def)
    then show ?thesis
      using label_cases by (auto simp: flush_Inl_iff)
  qed
  have "ExpressionSolver expression = Inl UnbalancedBrackets \<longleftrightarrow>
      scan data initial = Inl UnbalancedBrackets
      \<or> (\<exists>st. scan data initial = Inr st \<and> flush (stack st) (out st) = Inl UnbalancedBrackets)"
    by (cases "scan data initial") (simp_all add: ExpressionSolver_def data_def)
  then have "ExpressionSolver expression = Inl UnbalancedBrackets \<longleftrightarrow>
      (\<exists>n st. steps n data initial = Inr st \<and> char_at data (position st) = CHR '')''
         \<and> (\<forall>e\<in>set (stack st). label e \<noteq> BRACKET))
      \<or> (\<exists>st. scan data initial = Inr st \<and> (\<exists>e\<in>set (stack st). label e = BRACKET))"
    using scan_fails flush_fails by auto
  moreover have "ExpressionSolver ''(II+III'' = Inl UnbalancedBrackets"
    by code_simp
  moreover have "ExpressionSolver ''II+III)'' = Inl UnbalancedBrackets"
    by code_simp
  ultimately show ?thesis
    unfolding data_def by blast
qed

theorem UnbalancedBrackets_iff_witness:
  "steps 1 ''I)'' initial = Inr \<lparr>position = 1, unarity = 1, stack = [], out = [Element_value 1]\<rparr>
   \<and> char_at ''I)'' 1 = CHR '')''
   \<and> ExpressionSolver ''I)'' = Inl UnbalancedBrackets
   \<and> scan ''(I'' initial
       = Inr \<lparr>position = 2, unarity = 1, stack = [Element_symbol (CHR ''('') BRACKET],
              out = [Element_value 1]\<rparr>
   \<and> ExpressionSolver ''(I'' = Inl UnbalancedBrackets"
proof -
  let ?st = "\<lparr>position = 1, unarity = 1, stack = [], out = [Element_value 1]\<rparr>"
  let ?st' = "\<lparr>position = 2, unarity = 1, stack = [Element_symbol (CHR ''('') BRACKET],
              out = [Element_value 1]\<rparr>"
  have a: "steps 1 ''I)'' initial = Inr ?st"
    by code_simp
  have b: "char_at ''I)'' 1 = CHR '')''"
    by code_simp
  have f: "filter (\<lambda>x. \<not> isspace x) ''I)'' = ''I)''" "filter (\<lambda>x. \<not> isspace x) ''(I'' = ''(I''"
    by code_simp+
  have "\<exists>n st. steps n ''I)'' initial = Inr st \<and> char_at ''I)'' (position st) = CHR '')''
         \<and> (\<forall>e\<in>set (stack st). label e \<noteq> BRACKET)"
    using a b by (intro exI [of _ 1] exI [of _ ?st]) simp
  then have c: "ExpressionSolver ''I)'' = Inl UnbalancedBrackets"
    using UnbalancedBrackets_iff [of "''I)''"] f by simp
  have d: "scan ''(I'' initial = Inr ?st'"
    by code_simp
  then have "\<exists>st. scan ''(I'' initial = Inr st \<and> (\<exists>e\<in>set (stack st). label e = BRACKET)"
    by (simp add: Element_symbol_def)
  then have e: "ExpressionSolver ''(I'' = Inl UnbalancedBrackets"
    using UnbalancedBrackets_iff [of "''(I''"] f by simp
  from a b c d e show ?thesis
    by blast
qed


lemma operation_cases:
  "is_operation c \<Longrightarrow> \<not> is_roman c \<and> c \<noteq> CHR ''('' \<and> c \<noteq> CHR '')''"
  by (auto simp: is_operation_def)

text \<open>
  Claim C6. At a binary operator the loop moves elements from the operator stack to the
  output while the priority of the top is greater than or equal to the priority of the
  new operator, then pushes the new operator. The priorities are 0 for \<open>+\<close> and \<open>-\<close>,
  1 for \<open>*\<close> and \<open>/\<close>, and \<open>- 1\<close> for the brackets. The line \<open>II+III*II\<close> gives \<open>VIII\<close>.
\<close>

theorem operator_pops_not_lower:
  "(is_operation c \<and> char_at data (position st) = c \<and> \<not> is_unary data (position st) \<longrightarrow>
      step data st =
        Inr (st\<lparr>stack := Element_symbol c BINARY_OPERATION
                   # dropWhile (\<lambda>e. priority e \<ge> priority (Element_symbol c BINARY_OPERATION))
                       (stack st),
                 out := out st
                   @ takeWhile (\<lambda>e. priority e \<ge> priority (Element_symbol c BINARY_OPERATION))
                       (stack st),
                 unarity := 1, position := position st + 1\<rparr>))
   \<and> priority (Element_symbol (CHR ''+'') t) = 0 \<and> priority (Element_symbol (CHR ''-'') t) = 0
   \<and> priority (Element_symbol (CHR ''*'') t) = 1 \<and> priority (Element_symbol (CHR ''/'') t) = 1
   \<and> priority (Element_symbol (CHR ''('') t) = - 1 \<and> priority (Element_symbol (CHR '')'') t) = - 1
   \<and> calc ''II+III*II'' = Inr ''VIII''"
proof -
  have "step data st =
        Inr (st\<lparr>stack := Element_symbol c BINARY_OPERATION
                   # dropWhile (\<lambda>e. priority e \<ge> priority (Element_symbol c BINARY_OPERATION))
                       (stack st),
                 out := out st
                   @ takeWhile (\<lambda>e. priority e \<ge> priority (Element_symbol c BINARY_OPERATION))
                       (stack st),
                 unarity := 1, position := position st + 1\<rparr>)"
    if "is_operation c" "char_at data (position st) = c" "\<not> is_unary data (position st)"
    using that operation_cases [of c] by (simp add: step_def Let_def pop_priority_eq)
  moreover have "calc ''II+III*II'' = Inr ''VIII''"
    by code_simp
  ultimately show ?thesis
    by (simp add: Element_symbol_def)
qed

theorem operator_pops_not_lower_witness:
  "is_operation (CHR ''+'') \<and> char_at ''I*I+I'' 3 = CHR ''+'' \<and> \<not> is_unary ''I*I+I'' 3
   \<and> step ''I*I+I''
        \<lparr>position = 3, unarity = 1, stack = [Element_symbol (CHR ''*'') BINARY_OPERATION],
         out = [Element_value 1, Element_value 1]\<rparr>
      = Inr \<lparr>position = 4, unarity = 1, stack = [Element_symbol (CHR ''+'') BINARY_OPERATION],
             out = [Element_value 1, Element_value 1,
                    Element_symbol (CHR ''*'') BINARY_OPERATION]\<rparr>"
proof -
  let ?st = "\<lparr>position = 3, unarity = 1, stack = [Element_symbol (CHR ''*'') BINARY_OPERATION],
         out = [Element_value 1, Element_value 1]\<rparr>"
  have h: "is_operation (CHR ''+'')" "char_at ''I*I+I'' (position ?st) = CHR ''+''"
    "\<not> is_unary ''I*I+I'' (position ?st)"
    by code_simp+
  then show ?thesis
    using operator_pops_not_lower [of "CHR ''+''" "''I*I+I''" ?st]
    by (simp add: Element_symbol_def)
qed

text \<open>
  Claim C9. For an expression that is empty or holds whitespace only, the constructor
  leaves an empty postfix sequence, and \<open>solve\<close> on it returns the zero symbol \<open>Z\<close>, not
  an error.
\<close>

theorem whitespace_only:
  assumes "\<forall>c\<in>set expression. isspace c"
  shows "ExpressionSolver expression = Inr [] \<and> solve [] = Inr ''Z''
    \<and> calc expression = Inr ''Z''"
proof -
  have "filter (\<lambda>x. \<not> isspace x) expression = []"
    using assms by (simp add: filter_empty_conv)
  then have "ExpressionSolver expression = Inr []"
    by (simp add: ExpressionSolver_def scan.simps initial_def)
  then show ?thesis
    by (simp add: solve_def calc_def)
qed

theorem whitespace_only_witness:
  "isspace (CHR 0x20) \<and> isspace (CHR 0x09)
   \<and> ExpressionSolver [CHR 0x20, CHR 0x09, CHR 0x20] = Inr []
   \<and> calc [CHR 0x20, CHR 0x09, CHR 0x20] = Inr ''Z''
   \<and> calc [] = Inr ''Z''"
proof -
  have s: "isspace (CHR 0x20)" "isspace (CHR 0x09)"
    by (simp_all add: isspace_def)
  then have "\<forall>c\<in>set [CHR 0x20, CHR 0x09, CHR 0x20]. isspace c"
    by simp
  then show ?thesis
    using s whitespace_only [of "[CHR 0x20, CHR 0x09, CHR 0x20]"] whitespace_only [of "[]"]
    by simp
qed

text \<open>
  The unary minus. \<open>is_unary\<close> holds at a position of the text exactly when the character
  there is a minus, a next character exists and is an open bracket or a numeral letter,
  and the position is the first or follows an operator character or a close bracket. The
  loop then only sets \<open>unarity\<close> to \<open>- 1\<close> and moves on, and a numeral that comes next is
  put out multiplied by it.
\<close>

lemma is_unary_iff:
  assumes "current < length data"
  shows "is_unary data current \<longleftrightarrow>
     data ! current = CHR ''-''
     \<and> current + 1 < length data
     \<and> (data ! (current + 1) = CHR ''('' \<or> is_roman (data ! (current + 1)))
     \<and> (current = 0 \<or> is_operation (data ! (current - 1)) \<or> data ! (current - 1) = CHR '')'')"
  using assms by (cases "current = 0") (auto simp: is_unary_def char_at_def)

lemma unary_minus_step:
  assumes "is_unary data (position st)"
  shows "step data st = Inr (st\<lparr>unarity := - 1, position := position st + 1\<rparr>)"
proof -
  have "char_at data (position st) = CHR ''-''"
    using assms by (simp add: is_unary_def)
  then show ?thesis
    using assms by (simp add: step_def Let_def is_operation_def)
qed

lemma numeral_step:
  assumes "is_roman (char_at data (position st))"
  shows "step data st =
     Inr (st\<lparr>out := out st @ [Element_value
                (to_int64 (takeWhile is_roman (drop (position st) data)) * unarity st)],
              unarity := 1,
              position := position st + length (takeWhile is_roman (drop (position st) data))\<rparr>)"
  using assms by (simp add: step_def Let_def read_number_def)

lemma unary_minus_examples:
  "ExpressionSolver ''-V'' = Inr [Element_value (- 5)]
   \<and> ExpressionSolver ''III-V''
       = Inr [Element_value 3, Element_value 5, Element_symbol (CHR ''-'') BINARY_OPERATION]"
  by code_simp

text \<open>
  Claim C3 at the line \<open>-(V)\<close>. The minus is detected as unary, but the open bracket
  that follows resets \<open>unarity\<close> to 1 (line 294) before the numeral is read: the postfix
  sequence is the value 5 and the line prints \<open>V\<close>, where the claim has the unary minus
  negate the next numeral value. The rest of the claim holds: \<open>is_unary_iff\<close>,
  \<open>unary_minus_step\<close>, \<open>numeral_step\<close> and \<open>unary_minus_examples\<close>.
\<close>

theorem unary_minus_before_bracket:
  "is_unary ''-(V)'' 0
   \<and> ExpressionSolver ''-(V)'' = Inr [Element_value 5]
   \<and> calc ''-(V)'' = Inr ''V''
   \<and> calc ''-V'' = Inr ''-V''"
  by code_simp

text \<open>
  After a postfix sequence that is not empty, the loop of \<open>solve\<close> leaves at least one
  element on the stack, so that \<^verbatim>\<open>stack[0]\<close> of line 339 exists.
\<close>

lemma solve_loop_not_empty:
  "solve_loop postfix stk = Inr stk' \<Longrightarrow> postfix \<noteq> [] \<or> stk \<noteq> [] \<Longrightarrow> stk' \<noteq> []"
proof (induction postfix stk rule: solve_loop.induct)
  case (1 stk)
  then show ?case by simp
next
  case (2 element rest stk)
  then show ?case
    by (auto split: if_splits list.splits sum.splits)
qed

text \<open>
  Claim C5 at the line \<open>I(II)\<close>. Its postfix sequence is the two values 1 and 2, which the
  loop of \<open>solve\<close> leaves both on the stack; \<open>solve\<close> tests the kind of the bottom
  element only (line 339), not the size of the stack, and prints \<open>I\<close> where the claim asks
  for \<open>MalformedExpression\<close>.
\<close>

theorem two_values_left:
  "ExpressionSolver ''I(II)'' = Inr [Element_value 1, Element_value 2]
   \<and> solve_loop [Element_value 1, Element_value 2] [] = Inr [Element_value 2, Element_value 1]
   \<and> solve [Element_value 1, Element_value 2] = Inr ''I''
   \<and> calc ''I(II)'' = Inr ''I''"
  by code_simp

end
